theory Spec2Isabelle
  imports Main "HOL-Library.Word" "HOL-Library.Monad_Syntax"
begin

section \<open>Data model of muEdge.c\<close>

text \<open>
  The fixed-width integer types of the library. A \<open>MU_16S\<close> or \<open>MU_32S\<close> value is stored
  as a word and read in two's complement with \<open>sint\<close>; signed comparisons are \<open><s\<close>.
  Arithmetic on \<open>MU_32S\<close> wraps around.
\<close>

type_synonym MU_8U = "8 word"
type_synonym MU_16S = "16 word"
type_synonym MU_32S = "32 word"

text \<open>
  Modelled from the spec: the status type \<open>muError_t\<close> is declared in muCore.h, which
  is not part of the sources at hand. \<open>MU_ERR_SUCCESS\<close> and \<open>MU_ERR_NOT_SUPPORT\<close> are the
  two names muEdge.c uses (the spec's Success and ChannelUnsupported); \<open>DepthMismatch\<close>
  is the spec's name for the status a failed depth check yields. The code tests
  \<open>if(ret)\<close>, so MU_ERR_SUCCESS is the one status that is zero.
\<close>

datatype muError_t = MU_ERR_SUCCESS | MU_ERR_NOT_SUPPORT | DepthMismatch

text \<open>
  Modelled from the spec: the struct \<open>muImage_t\<close> is declared in muCore.h as well. The
  fields are those muEdge.c reads: \<open>width\<close>, \<open>height\<close>, \<open>channels\<close>, \<open>depth\<close> and the
  byte buffer \<open>imagedata\<close>, here the list of the bytes allocated behind the pointer.
  Source and destination are separate lists: the buffers do not overlap.
\<close>

record muImage_t =
  width :: MU_32S
  height :: MU_32S
  channels :: MU_32S
  depth :: MU_32S
  imagedata :: "MU_8U list"

text \<open>
  Modelled from the spec: \<open>muCheckDepth\<close> is defined outside muEdge.c. It receives a
  count and that many variadic arguments, alternately an image and the depth it must
  have (here the list of pairs), and fails with DepthMismatch as soon as one image
  reports another depth. It has no side effect.
\<close>

fun muCheckDepth :: "(muImage_t \<times> MU_32S) list \<Rightarrow> muError_t" where
  "muCheckDepth [] = MU_ERR_SUCCESS"
| "muCheckDepth ((img, d) # rest) =
     (if depth img \<noteq> d then DepthMismatch else muCheckDepth rest)"

section \<open>Buffer accesses\<close>

text \<open>
  \<open>in[k]\<close> with a \<open>MU_32S\<close> subscript: the byte at offset \<open>sint k\<close>, promoted to \<open>int\<close>.
  An access outside the allocated bytes is undefined behaviour in C; here it is \<open>None\<close>,
  and it ends the run.
\<close>

definition rd :: "MU_8U list \<Rightarrow> MU_32S \<Rightarrow> int option" where
  "rd inp k =
     (if 0 \<le> sint k \<and> nat (sint k) < length inp then Some (uint (inp ! nat (sint k)))
      else None)"

definition wr :: "MU_8U list \<Rightarrow> MU_32S \<Rightarrow> MU_8U \<Rightarrow> MU_8U list option" where
  "wr out k v =
     (if 0 \<le> sint k \<and> nat (sint k) < length out then Some (out[nat (sint k) := v])
      else None)"

section \<open>The four kernels\<close>

text \<open>
  Each function below is the right-hand side computed by one loop body for the window
  at \<open>index\<close>. The bytes are promoted to \<open>int\<close> before they are added: no sum exceeds
  \<open>8 * 255\<close> in absolute value, so the 32-bit \<open>int\<close> of C is the mathematical integer
  here. The result is assigned to the \<open>MU_16S\<close> variable \<open>temp\<close> (\<open>word_of_int\<close> keeps
  the low 16 bits), clamped, and cast to \<open>MU_8U\<close> (\<open>ucast\<close> keeps the low 8 bits).
  \<open>width<<1\<close> is \<open>push_bit 1 width\<close>.
\<close>

definition laplace1_px :: "MU_8U list \<Rightarrow> MU_32S \<Rightarrow> MU_32S \<Rightarrow> MU_8U option" where
  "laplace1_px inp width' index = do {
     a \<leftarrow> rd inp (index + 1);
     b \<leftarrow> rd inp (index + width');
     c \<leftarrow> rd inp (index + width' + 2);
     d \<leftarrow> rd inp (index + push_bit 1 width' + 1);
     m \<leftarrow> rd inp (index + width' + 1);
     let temp = (word_of_int \<bar>(a + b + c + d) - push_bit 2 m\<bar> :: MU_16S);
     let temp = (if 255 <s temp then 255 else temp);
     Some (ucast temp :: MU_8U)
   }"

definition laplace2_px :: "MU_8U list \<Rightarrow> MU_32S \<Rightarrow> MU_32S \<Rightarrow> MU_8U option" where
  "laplace2_px inp width' index = do {
     a \<leftarrow> rd inp index;
     b \<leftarrow> rd inp (index + 1);
     c \<leftarrow> rd inp (index + 2);
     d \<leftarrow> rd inp (index + width');
     e \<leftarrow> rd inp (index + width' + 2);
     f \<leftarrow> rd inp (index + push_bit 1 width');
     g \<leftarrow> rd inp (index + push_bit 1 width' + 1);
     h \<leftarrow> rd inp (index + push_bit 1 width' + 2);
     m \<leftarrow> rd inp (index + width' + 1);
     let temp = (word_of_int \<bar>(a + b + c + d + e + f + g + h) - push_bit 3 m\<bar> :: MU_16S);
     let temp = (if 255 <s temp then 255 else temp);
     Some (ucast temp :: MU_8U)
   }"

definition sobel_px :: "MU_8U list \<Rightarrow> MU_32S \<Rightarrow> MU_32S \<Rightarrow> MU_8U option" where
  "sobel_px inp width' index = do {
     a \<leftarrow> rd inp index;
     b \<leftarrow> rd inp (index + 1);
     c \<leftarrow> rd inp (index + 2);
     f \<leftarrow> rd inp (index + push_bit 1 width');
     g \<leftarrow> rd inp (index + push_bit 1 width' + 1);
     h \<leftarrow> rd inp (index + push_bit 1 width' + 2);
     d \<leftarrow> rd inp (index + width');
     e \<leftarrow> rd inp (index + width' + 2);
     let gx = (a + push_bit 1 b + c) - (f + push_bit 1 g + h);
     let gy = (a + push_bit 1 d + f) - (c + push_bit 1 e + h);
     let temp = (word_of_int (\<bar>gx\<bar> + \<bar>gy\<bar>) :: MU_16S);
     let temp = (if 255 <s temp then 255 else temp);
     let temp = (if temp <s 0 then 0 else temp);
     Some (ucast temp :: MU_8U)
   }"

definition prewitt_px :: "MU_8U list \<Rightarrow> MU_32S \<Rightarrow> MU_32S \<Rightarrow> MU_8U option" where
  "prewitt_px inp width' index = do {
     a \<leftarrow> rd inp index;
     b \<leftarrow> rd inp (index + 1);
     c \<leftarrow> rd inp (index + 2);
     f \<leftarrow> rd inp (index + push_bit 1 width');
     g \<leftarrow> rd inp (index + push_bit 1 width' + 1);
     h \<leftarrow> rd inp (index + push_bit 1 width' + 2);
     d \<leftarrow> rd inp (index + width');
     e \<leftarrow> rd inp (index + width' + 2);
     let gx = (a + b + c) - (f + g + h);
     let gy = (a + d + f) - (c + e + h);
     let temp = (word_of_int (\<bar>gx\<bar> + \<bar>gy\<bar>) :: MU_16S);
     let temp = (if 255 <s temp then 255 else temp);
     let temp = (if temp <s 0 then 0 else temp);
     Some (ucast temp :: MU_8U)
   }"

section \<open>The loop nest\<close>

text \<open>
  The four loop nests of muEdge.c are the same text but for the right-hand side: the
  body computes \<open>index = i+width*j\<close>, the response \<open>px\<close> of the window at \<open>index\<close>, and
  stores it at \<open>out[index+width+1]\<close>.
\<close>

definition window_step ::
  "(MU_8U list \<Rightarrow> MU_32S \<Rightarrow> MU_32S \<Rightarrow> MU_8U option) \<Rightarrow> MU_8U list \<Rightarrow> MU_32S \<Rightarrow>
   MU_32S \<Rightarrow> MU_32S \<Rightarrow> MU_8U list \<Rightarrow> MU_8U list option" where
  "window_step px inp width' j i out = do {
     let index = i + width' * j;
     v \<leftarrow> px inp width' index;
     wr out (index + width' + 1) v
   }"

lemma sint_succ:
  fixes i :: MU_32S
  assumes "i <s b"
  shows "sint (i + 1) = sint i + 1"
proof -
  have "sint i < sint b" using assms by (simp add: word_sless_alt)
  moreover have "sint b < 2 ^ 31" using sint_lt [of b] by simp
  moreover have "- (2 ^ 31) \<le> sint i" using sint_ge [of i] by simp
  ultimately have "signed_take_bit 31 (sint i + 1) = sint i + 1"
    by (intro signed_take_bit_int_eq_self) auto
  then show ?thesis by (simp add: sint_word_ariths)
qed

text \<open>\<open>for(i=0; i<(width-1); i++)\<close>, entered at \<open>i\<close>.\<close>

function loop_i ::
  "(MU_8U list \<Rightarrow> MU_32S \<Rightarrow> MU_32S \<Rightarrow> MU_8U option) \<Rightarrow> MU_8U list \<Rightarrow> MU_32S \<Rightarrow>
   MU_32S \<Rightarrow> MU_32S \<Rightarrow> MU_8U list \<Rightarrow> MU_8U list option" where
  "loop_i px inp width' j i out =
     (if i <s width' - 1 then
        (case window_step px inp width' j i out of
           None \<Rightarrow> None
         | Some out' \<Rightarrow> loop_i px inp width' j (i + 1) out')
      else Some out)"
  by pat_completeness auto
termination
  by (relation "measure (\<lambda>(px, inp, width', j, i, out). nat (sint (width' - 1) - sint i))")
     (auto simp: sint_succ word_sless_alt)

text \<open>\<open>for(j=0; j<(height-1); j++)\<close>, entered at \<open>j\<close>.\<close>

function loop_j ::
  "(MU_8U list \<Rightarrow> MU_32S \<Rightarrow> MU_32S \<Rightarrow> MU_8U option) \<Rightarrow> MU_8U list \<Rightarrow> MU_32S \<Rightarrow>
   MU_32S \<Rightarrow> MU_32S \<Rightarrow> MU_8U list \<Rightarrow> MU_8U list option" where
  "loop_j px inp width' height' j out =
     (if j <s height' - 1 then
        (case loop_i px inp width' j 0 out of
           None \<Rightarrow> None
         | Some out' \<Rightarrow> loop_j px inp width' height' (j + 1) out')
      else Some out)"
  by pat_completeness auto
termination
  by (relation "measure (\<lambda>(px, inp, width', height', j, out). nat (sint (height' - 1) - sint j))")
     (auto simp: sint_succ word_sless_alt)

declare loop_i.simps [simp del]
declare loop_j.simps [simp del]

section \<open>The operators\<close>

text \<open>
  An operator returns its status and the destination image as the call leaves it;
  \<open>None\<close> is a run that accessed a buffer out of bounds. The parameter \<open>d8u\<close> is the
  value of the macro \<open>MU_IMG_DEPTH_8U\<close>, which muCore.h defines. The build is the
  portable one: neither HISI3516 nor HISI3531 is defined, so muSobel has no
  accelerator branch.
\<close>

definition run_kernel ::
  "(MU_8U list \<Rightarrow> MU_32S \<Rightarrow> MU_32S \<Rightarrow> MU_8U option) \<Rightarrow> muImage_t \<Rightarrow> muImage_t \<Rightarrow>
   (muError_t \<times> muImage_t) option" where
  "run_kernel px src dst =
     (let width' = width src; height' = height src;
          inp = imagedata src; out = imagedata dst
      in case loop_j px inp width' height' 0 out of
           None \<Rightarrow> None
         | Some out' \<Rightarrow> Some (MU_ERR_SUCCESS, dst\<lparr>imagedata := out'\<rparr>))"

definition muLaplace ::
  "MU_32S \<Rightarrow> muImage_t \<Rightarrow> muImage_t \<Rightarrow> MU_8U \<Rightarrow> (muError_t \<times> muImage_t) option" where
  "muLaplace d8u src dst selection =
     (let ret = muCheckDepth [(src, d8u), (dst, d8u)] in
      if ret \<noteq> MU_ERR_SUCCESS then Some (ret, dst)
      else if channels src \<noteq> 1 \<or> channels dst \<noteq> 1 then Some (MU_ERR_NOT_SUPPORT, dst)
      else if selection = 1 then run_kernel laplace1_px src dst
      else if selection = 2 then run_kernel laplace2_px src dst
      else Some (MU_ERR_SUCCESS, dst))"

definition muSobel ::
  "MU_32S \<Rightarrow> muImage_t \<Rightarrow> muImage_t \<Rightarrow> (muError_t \<times> muImage_t) option" where
  "muSobel d8u src dst =
     (let ret = muCheckDepth [(src, d8u), (dst, d8u)] in
      if ret \<noteq> MU_ERR_SUCCESS then Some (ret, dst)
      else if channels src \<noteq> 1 \<or> channels dst \<noteq> 1 then Some (MU_ERR_NOT_SUPPORT, dst)
      else run_kernel sobel_px src dst)"

definition muPrewitt ::
  "MU_32S \<Rightarrow> muImage_t \<Rightarrow> muImage_t \<Rightarrow> (muError_t \<times> muImage_t) option" where
  "muPrewitt d8u src dst =
     (let ret = muCheckDepth [(src, d8u), (dst, d8u)] in
      if ret \<noteq> MU_ERR_SUCCESS then Some (ret, dst)
      else if channels src \<noteq> 1 \<or> channels dst \<noteq> 1 then Some (MU_ERR_NOT_SUPPORT, dst)
      else run_kernel prewitt_px src dst)"

text \<open>muCanny: the depth check is commented out, the body is the return statement.\<close>

definition muCanny ::
  "muImage_t \<Rightarrow> muImage_t \<Rightarrow> muImage_t \<Rightarrow> (muError_t \<times> muImage_t \<times> muImage_t) option" where
  "muCanny src dst ang = Some (MU_ERR_SUCCESS, dst, ang)"

section \<open>Responses and written positions, over natural-number offsets\<close>

text \<open>
  \<open>px_at inp k\<close> is the byte at offset \<open>k\<close> of the source buffer, as an integer. The four
  response functions give the saturated value of one window as a function of the
  offset \<open>k\<close> of its origin and of the row length \<open>W\<close>.
\<close>

definition px_at :: "MU_8U list \<Rightarrow> nat \<Rightarrow> int" where
  "px_at inp k = uint (inp ! k)"

definition laplace1_response :: "MU_8U list \<Rightarrow> nat \<Rightarrow> nat \<Rightarrow> int" where
  "laplace1_response inp W k =
     min 255 \<bar>(px_at inp (k + 1) + px_at inp (k + W) + px_at inp (k + W + 2)
               + px_at inp (k + 2 * W + 1)) - 4 * px_at inp (k + W + 1)\<bar>"

definition laplace2_response :: "MU_8U list \<Rightarrow> nat \<Rightarrow> nat \<Rightarrow> int" where
  "laplace2_response inp W k =
     min 255 \<bar>(px_at inp k + px_at inp (k + 1) + px_at inp (k + 2)
               + px_at inp (k + W) + px_at inp (k + W + 2)
               + px_at inp (k + 2 * W) + px_at inp (k + 2 * W + 1) + px_at inp (k + 2 * W + 2))
              - 8 * px_at inp (k + W + 1)\<bar>"

definition sobel_response :: "MU_8U list \<Rightarrow> nat \<Rightarrow> nat \<Rightarrow> int" where
  "sobel_response inp W k =
     (let gx = (px_at inp k + 2 * px_at inp (k + 1) + px_at inp (k + 2))
               - (px_at inp (k + 2 * W) + 2 * px_at inp (k + 2 * W + 1) + px_at inp (k + 2 * W + 2));
          gy = (px_at inp k + 2 * px_at inp (k + W) + px_at inp (k + 2 * W))
               - (px_at inp (k + 2) + 2 * px_at inp (k + W + 2) + px_at inp (k + 2 * W + 2))
      in min 255 (\<bar>gx\<bar> + \<bar>gy\<bar>))"

definition prewitt_response :: "MU_8U list \<Rightarrow> nat \<Rightarrow> nat \<Rightarrow> int" where
  "prewitt_response inp W k =
     (let gx = (px_at inp k + px_at inp (k + 1) + px_at inp (k + 2))
               - (px_at inp (k + 2 * W) + px_at inp (k + 2 * W + 1) + px_at inp (k + 2 * W + 2));
          gy = (px_at inp k + px_at inp (k + W) + px_at inp (k + 2 * W))
               - (px_at inp (k + 2) + px_at inp (k + W + 2) + px_at inp (k + 2 * W + 2))
      in min 255 (\<bar>gx\<bar> + \<bar>gy\<bar>))"

text \<open>
  \<open>row_out\<close> is the destination after the windows \<open>i0 .. W - 2\<close> of row \<open>jn\<close> have been
  stored, \<open>img_out\<close> the destination after the rows \<open>j0 .. H - 2\<close>.
\<close>

definition row_out :: "(nat \<Rightarrow> MU_8U) \<Rightarrow> nat \<Rightarrow> nat \<Rightarrow> nat \<Rightarrow> MU_8U list \<Rightarrow> MU_8U list" where
  "row_out f W jn i0 out = fold (\<lambda>i acc. acc[i + W * jn + W + 1 := f (i + W * jn)]) [i0..<W - 1] out"

definition img_out :: "(nat \<Rightarrow> MU_8U) \<Rightarrow> nat \<Rightarrow> nat \<Rightarrow> nat \<Rightarrow> MU_8U list \<Rightarrow> MU_8U list" where
  "img_out f W H j0 out = fold (\<lambda>j acc. row_out f W j 0 acc) [j0..<H - 1] out"

section \<open>Sample inputs\<close>

text \<open>
  A 3 by 3 source with four spare bytes behind the image, a destination filled with the
  sentinel 170, a three-channel source, a source of another depth, and a source one
  pixel wide. The depth 1 stands for \<open>MU_IMG_DEPTH_8U\<close> in the examples.
\<close>

definition sample_src :: muImage_t where
  "sample_src = \<lparr>width = 3, height = 3, channels = 1, depth = 1,
                  imagedata = [1, 2, 3, 4, 5, 6, 7, 8, 9, 0, 0, 0, 0]\<rparr>"

definition sample_dst :: muImage_t where
  "sample_dst = \<lparr>width = 3, height = 3, channels = 1, depth = 1,
                  imagedata = [170, 170, 170, 170, 170, 170, 170, 170, 170]\<rparr>"

definition rgb_src :: muImage_t where
  "rgb_src = \<lparr>width = 3, height = 3, channels = 3, depth = 1,
               imagedata = [1, 2, 3, 4, 5, 6, 7, 8, 9, 0, 0, 0, 0]\<rparr>"

definition deep_src :: muImage_t where
  "deep_src = \<lparr>width = 3, height = 3, channels = 1, depth = 2,
               imagedata = [1, 2, 3, 4, 5, 6, 7, 8, 9, 0, 0, 0, 0]\<rparr>"

definition column_src :: muImage_t where
  "column_src = \<lparr>width = 1, height = 3, channels = 1, depth = 1, imagedata = [1, 2, 3]\<rparr>"

text \<open>
  The same 3 by 3 source with a buffer of exactly 9 bytes, a uniform one with spare
  bytes and one with exactly 9 bytes, and the 4 by 4 image that is 0 everywhere but 255
  at (1, 1), followed by the bytes \<open>pad\<close> that lie behind the image in its buffer.
\<close>

definition exact_src :: muImage_t where
  "exact_src = \<lparr>width = 3, height = 3, channels = 1, depth = 1,
                  imagedata = [1, 2, 3, 4, 5, 6, 7, 8, 9]\<rparr>"

definition grey_src :: muImage_t where
  "grey_src = \<lparr>width = 3, height = 3, channels = 1, depth = 1,
                imagedata = [7, 7, 7, 7, 7, 7, 7, 7, 7, 1, 2, 3, 4]\<rparr>"


definition spot_pixels :: "MU_8U list" where
  "spot_pixels = [0, 0, 0, 0,  0, 255, 0, 0,  0, 0, 0, 0,  0, 0, 0, 0]"

definition spot_src :: "MU_32S \<Rightarrow> MU_8U list \<Rightarrow> muImage_t" where
  "spot_src d8u pad = \<lparr>width = 4, height = 4, channels = 1, depth = d8u,
                        imagedata = spot_pixels @ pad\<rparr>"

definition spot_dst :: muImage_t where
  "spot_dst = \<lparr>width = 4, height = 4, channels = 1, depth = 1,
                imagedata = [170, 170, 170, 170,  170, 170, 170, 170,
                             170, 170, 170, 170,  170, 170, 170, 170]\<rparr>"

section \<open>Machine arithmetic without overflow\<close>

lemma sint_of_nat32:
  assumes "n < 2 ^ 31" shows "sint (of_nat n :: MU_32S) = int n"
proof -
  have "int n < 2 ^ 31" using assms by (metis of_nat_less_iff of_nat_numeral of_nat_power)
  then have "signed_take_bit 31 (int n) = int n"
    by (intro signed_take_bit_int_eq_self) auto
  moreover have "(of_nat n :: MU_32S) = word_of_int (int n)" by simp
  ultimately show ?thesis by (simp only: sint_sbintrunc') simp
qed

lemma sless_of_nat32:
  "a < 2 ^ 31 \<Longrightarrow> b < 2 ^ 31 \<Longrightarrow> ((of_nat a :: MU_32S) <s of_nat b) = (a < b)"
  by (simp add: word_sless_alt sint_of_nat32)

lemma rd_of_nat: "k < length inp \<Longrightarrow> k < 2 ^ 31 \<Longrightarrow> rd inp (of_nat k) = Some (px_at inp k)"
  by (simp add: rd_def sint_of_nat32 px_at_def)

lemma wr_of_nat: "k < length out \<Longrightarrow> k < 2 ^ 31 \<Longrightarrow> wr out (of_nat k) v = Some (out[k := v])"
  by (simp add: wr_def sint_of_nat32)

lemma sint_temp:
  assumes "0 \<le> t" "t \<le> 2040"
  shows "sint (word_of_int t :: MU_16S) = t"
proof -
  have "signed_take_bit 15 t = t" using assms by (intro signed_take_bit_int_eq_self) auto
  then show ?thesis by (simp add: sint_sbintrunc')
qed

lemma clamp_hi:
  assumes "0 \<le> t" "t \<le> 2040"
  shows "(ucast (if 255 <s (word_of_int t :: MU_16S) then 255 else (word_of_int t :: MU_16S)) :: MU_8U)
         = word_of_int (min 255 t)"
  using assms by (simp add: word_sless_alt sint_temp ucast_down_wi is_down min_def)

lemma clamp_hi_lo:
  assumes "0 \<le> t" "t \<le> 2040"
  shows "(let temp = (word_of_int t :: MU_16S);
              temp = (if 255 <s temp then 255 else temp);
              temp = (if temp <s 0 then 0 else temp)
          in (ucast temp :: MU_8U)) = word_of_int (min 255 t)"
  using assms by (simp add: word_sless_alt sint_temp ucast_down_wi is_down min_def Let_def)

section \<open>Each kernel computes its response\<close>

lemma px_at_bounds: "0 \<le> px_at inp k" "px_at inp k \<le> 255"
  using uint_lt2p [of "inp ! k"] by (simp_all add: px_at_def)

lemma index_of_nat:
  fixes W k :: nat
  shows "(of_nat k :: MU_32S) + 1 = of_nat (k + 1)"
    "(of_nat k :: MU_32S) + 2 = of_nat (k + 2)"
    "(of_nat k :: MU_32S) + of_nat W = of_nat (k + W)"
    "(of_nat k :: MU_32S) + of_nat W + 1 = of_nat (k + W + 1)"
    "(of_nat k :: MU_32S) + of_nat W + 2 = of_nat (k + W + 2)"
    "(of_nat k :: MU_32S) + push_bit 1 (of_nat W) = of_nat (k + 2 * W)"
    "(of_nat k :: MU_32S) + push_bit 1 (of_nat W) + 1 = of_nat (k + 2 * W + 1)"
    "(of_nat k :: MU_32S) + push_bit 1 (of_nat W) + 2 = of_nat (k + 2 * W + 2)"
  by (simp_all add: push_bit_eq_mult)

lemma rd_window:
  assumes "k + 2 * W + 2 < length inp" "k + 2 * W + 2 < 2 ^ 31" "d \<le> 2 * W + 2"
  shows "rd inp (of_nat (k + d)) = Some (px_at inp (k + d))"
  using assms by (intro rd_of_nat) simp_all

lemma laplace1_px_run:
  assumes "k + 2 * W + 2 < length inp" "k + 2 * W + 2 < 2 ^ 31"
  shows "laplace1_px inp (of_nat W) (of_nat k) = Some (word_of_int (laplace1_response inp W k))"
proof -
  define t where "t = \<bar>(px_at inp (k + 1) + px_at inp (k + W) + px_at inp (k + W + 2)
               + px_at inp (k + 2 * W + 1)) - push_bit 2 (px_at inp (k + W + 1))\<bar>"
  have b: "0 \<le> t" "t \<le> 2040"
    using px_at_bounds [of inp "k + 1"] px_at_bounds [of inp "k + W"]
      px_at_bounds [of inp "k + W + 2"] px_at_bounds [of inp "k + 2 * W + 1"]
      px_at_bounds [of inp "k + W + 1"]
    by (simp_all add: t_def push_bit_eq_mult)
  have "laplace1_px inp (of_nat W) (of_nat k)
        = Some (ucast (if 255 <s (word_of_int t :: MU_16S) then 255 else (word_of_int t :: MU_16S)))"
    unfolding laplace1_px_def index_of_nat
    using rd_window [OF assms, of 1] rd_window [OF assms, of W] rd_window [OF assms, of "W + 2"]
      rd_window [OF assms, of "2 * W + 1"] rd_window [OF assms, of "W + 1"]
    by (simp add: t_def Let_def)
  also have "\<dots> = Some (word_of_int (min 255 t))"
    using clamp_hi [OF b] by simp
  finally show ?thesis by (simp add: laplace1_response_def t_def push_bit_eq_mult mult.commute)
qed

lemma laplace2_px_run:
  assumes "k + 2 * W + 2 < length inp" "k + 2 * W + 2 < 2 ^ 31"
  shows "laplace2_px inp (of_nat W) (of_nat k) = Some (word_of_int (laplace2_response inp W k))"
proof -
  define t where "t = \<bar>(px_at inp k + px_at inp (k + 1) + px_at inp (k + 2)
               + px_at inp (k + W) + px_at inp (k + W + 2)
               + px_at inp (k + 2 * W) + px_at inp (k + 2 * W + 1) + px_at inp (k + 2 * W + 2))
              - push_bit 3 (px_at inp (k + W + 1))\<bar>"
  have b: "0 \<le> t" "t \<le> 2040"
    using px_at_bounds [of inp k] px_at_bounds [of inp "k + 1"] px_at_bounds [of inp "k + 2"]
      px_at_bounds [of inp "k + W"] px_at_bounds [of inp "k + W + 2"]
      px_at_bounds [of inp "k + 2 * W"] px_at_bounds [of inp "k + 2 * W + 1"]
      px_at_bounds [of inp "k + 2 * W + 2"] px_at_bounds [of inp "k + W + 1"]
    by (simp_all add: t_def push_bit_eq_mult)
  have "laplace2_px inp (of_nat W) (of_nat k)
        = Some (ucast (if 255 <s (word_of_int t :: MU_16S) then 255 else (word_of_int t :: MU_16S)))"
    unfolding laplace2_px_def index_of_nat
    using rd_window [OF assms, of 0] rd_window [OF assms, of 1] rd_window [OF assms, of 2]
      rd_window [OF assms, of W] rd_window [OF assms, of "W + 2"]
      rd_window [OF assms, of "2 * W"] rd_window [OF assms, of "2 * W + 1"]
      rd_window [OF assms, of "2 * W + 2"] rd_window [OF assms, of "W + 1"]
    by (simp add: t_def Let_def)
  also have "\<dots> = Some (word_of_int (min 255 t))"
    using clamp_hi [OF b] by simp
  finally show ?thesis by (simp add: laplace2_response_def t_def push_bit_eq_mult mult.commute)
qed

lemma sobel_px_run:
  assumes "k + 2 * W + 2 < length inp" "k + 2 * W + 2 < 2 ^ 31"
  shows "sobel_px inp (of_nat W) (of_nat k) = Some (word_of_int (sobel_response inp W k))"
proof -
  define gx where "gx = (px_at inp k + push_bit 1 (px_at inp (k + 1)) + px_at inp (k + 2))
               - (px_at inp (k + 2 * W) + push_bit 1 (px_at inp (k + 2 * W + 1)) + px_at inp (k + 2 * W + 2))"
  define gy where "gy = (px_at inp k + push_bit 1 (px_at inp (k + W)) + px_at inp (k + 2 * W))
               - (px_at inp (k + 2) + push_bit 1 (px_at inp (k + W + 2)) + px_at inp (k + 2 * W + 2))"
  define t where "t = \<bar>gx\<bar> + \<bar>gy\<bar>"
  have b: "0 \<le> t" "t \<le> 2040"
    using px_at_bounds [of inp k] px_at_bounds [of inp "k + 1"] px_at_bounds [of inp "k + 2"]
      px_at_bounds [of inp "k + W"] px_at_bounds [of inp "k + W + 2"]
      px_at_bounds [of inp "k + 2 * W"] px_at_bounds [of inp "k + 2 * W + 1"]
      px_at_bounds [of inp "k + 2 * W + 2"]
    by (simp_all add: t_def gx_def gy_def push_bit_eq_mult)
  have "sobel_px inp (of_nat W) (of_nat k)
        = Some (let temp = (word_of_int t :: MU_16S);
              temp = (if 255 <s temp then 255 else temp);
              temp = (if temp <s 0 then 0 else temp)
          in (ucast temp :: MU_8U))"
    unfolding sobel_px_def index_of_nat
    using rd_window [OF assms, of 0] rd_window [OF assms, of 1] rd_window [OF assms, of 2]
      rd_window [OF assms, of W] rd_window [OF assms, of "W + 2"]
      rd_window [OF assms, of "2 * W"] rd_window [OF assms, of "2 * W + 1"]
      rd_window [OF assms, of "2 * W + 2"]
    by (simp add: t_def gx_def gy_def Let_def)
  also have "\<dots> = Some (word_of_int (min 255 t))"
    using clamp_hi_lo [OF b] by simp
  finally show ?thesis
    by (simp add: sobel_response_def t_def gx_def gy_def push_bit_eq_mult mult.commute Let_def)
qed

lemma prewitt_px_run:
  assumes "k + 2 * W + 2 < length inp" "k + 2 * W + 2 < 2 ^ 31"
  shows "prewitt_px inp (of_nat W) (of_nat k) = Some (word_of_int (prewitt_response inp W k))"
proof -
  define gx where "gx = (px_at inp k + px_at inp (k + 1) + px_at inp (k + 2))
               - (px_at inp (k + 2 * W) + px_at inp (k + 2 * W + 1) + px_at inp (k + 2 * W + 2))"
  define gy where "gy = (px_at inp k + px_at inp (k + W) + px_at inp (k + 2 * W))
               - (px_at inp (k + 2) + px_at inp (k + W + 2) + px_at inp (k + 2 * W + 2))"
  define t where "t = \<bar>gx\<bar> + \<bar>gy\<bar>"
  have b: "0 \<le> t" "t \<le> 2040"
    using px_at_bounds [of inp k] px_at_bounds [of inp "k + 1"] px_at_bounds [of inp "k + 2"]
      px_at_bounds [of inp "k + W"] px_at_bounds [of inp "k + W + 2"]
      px_at_bounds [of inp "k + 2 * W"] px_at_bounds [of inp "k + 2 * W + 1"]
      px_at_bounds [of inp "k + 2 * W + 2"]
    by (simp_all add: t_def gx_def gy_def)
  have "prewitt_px inp (of_nat W) (of_nat k)
        = Some (let temp = (word_of_int t :: MU_16S);
              temp = (if 255 <s temp then 255 else temp);
              temp = (if temp <s 0 then 0 else temp)
          in (ucast temp :: MU_8U))"
    unfolding prewitt_px_def index_of_nat
    using rd_window [OF assms, of 0] rd_window [OF assms, of 1] rd_window [OF assms, of 2]
      rd_window [OF assms, of W] rd_window [OF assms, of "W + 2"]
      rd_window [OF assms, of "2 * W"] rd_window [OF assms, of "2 * W + 1"]
      rd_window [OF assms, of "2 * W + 2"]
    by (simp add: t_def gx_def gy_def Let_def)
  also have "\<dots> = Some (word_of_int (min 255 t))"
    using clamp_hi_lo [OF b] by simp
  finally show ?thesis
    by (simp add: prewitt_response_def t_def gx_def gy_def Let_def)
qed

section \<open>The loops store one response per window\<close>

lemma row_out_step: "i0 < W - 1 \<Longrightarrow>
  row_out f W jn i0 out = row_out f W jn (Suc i0) (out[i0 + W * jn + W + 1 := f (i0 + W * jn)])"
  by (simp add: row_out_def upt_conv_Cons)

lemma row_out_done: "W - 1 \<le> i0 \<Longrightarrow> row_out f W jn i0 out = out"
  by (simp add: row_out_def)

lemma img_out_step: "j0 < H - 1 \<Longrightarrow>
  img_out f W H j0 out = img_out f W H (Suc j0) (row_out f W j0 0 out)"
  by (simp add: img_out_def upt_conv_Cons)

lemma img_out_done: "H - 1 \<le> j0 \<Longrightarrow> img_out f W H j0 out = out"
  by (simp add: img_out_def)

lemma length_row_out [simp]: "length (row_out f W jn i0 out) = length out"
proof -
  have "length (fold (\<lambda>i acc. acc[i + W * jn + W + 1 := f (i + W * jn)]) xs out) = length out" for xs
    by (induction xs arbitrary: out) simp_all
  then show ?thesis by (simp add: row_out_def)
qed

lemma length_img_out [simp]: "length (img_out f W H j0 out) = length out"
proof -
  have "length (fold (\<lambda>j acc. row_out f W j 0 acc) xs out) = length out" for xs
    by (induction xs arbitrary: out) simp_all
  then show ?thesis by (simp add: img_out_def)
qed

lemma window_step_run:
  assumes "px inp (of_nat W) (of_nat (i + W * jn)) = Some v"
    and "i + W * jn + W + 1 < length out" and "i + W * jn + W + 1 < 2 ^ 31"
  shows "window_step px inp (of_nat W) (of_nat jn) (of_nat i) out
         = Some (out[i + W * jn + W + 1 := v])"
proof -
  have e1: "(of_nat i :: MU_32S) + of_nat W * of_nat jn = of_nat (i + W * jn)" by simp
  have e2: "(of_nat (i + W * jn) :: MU_32S) + of_nat W + 1 = of_nat (i + W * jn + W + 1)" by simp
  show ?thesis
    unfolding window_step_def Let_def e1 e2 using assms(1) wr_of_nat [OF assms(2,3)]
    by simp
qed

lemma loop_i_cond:
  assumes "1 \<le> W" "W < 2 ^ 31" "i0 \<le> W - 1"
  shows "((of_nat i0 :: MU_32S) <s of_nat W - 1) = (i0 < W - 1)"
proof -
  have "(of_nat W :: MU_32S) - 1 = of_nat (W - 1)" using assms(1) by simp
  moreover have "W - 1 < 2 ^ 31" "i0 < 2 ^ 31" using assms by simp_all
  ultimately show ?thesis by (simp only: sless_of_nat32)
qed

lemma loop_i_run:
  assumes W: "1 \<le> W" "W < 2 ^ 31"
    and room: "W * jn + 2 * W \<le> length out" "W * jn + 2 * W \<le> 2 ^ 31"
    and px: "\<And>i. i < W - 1 \<Longrightarrow> px inp (of_nat W) (of_nat (i + W * jn)) = Some (f (i + W * jn))"
    and i0: "i0 \<le> W - 1"
  shows "loop_i px inp (of_nat W) (of_nat jn) (of_nat i0) out = Some (row_out f W jn i0 out)"
  using room(1) i0
proof (induction n \<equiv> "W - 1 - i0" arbitrary: i0 out)
  case 0
  then have "\<not> i0 < W - 1" by simp
  then show ?case
    using loop_i_cond [OF W "0.prems"(2)]
    by (subst loop_i.simps) (simp add: row_out_done)
next
  case (Suc n)
  then have lt: "i0 < W - 1" by simp
  have step: "window_step px inp (of_nat W) (of_nat jn) (of_nat i0) out
              = Some (out[i0 + W * jn + W + 1 := f (i0 + W * jn)])"
    using lt Suc.prems(1) room(2) by (intro window_step_run px) simp_all
  have next_i: "(of_nat i0 :: MU_32S) + 1 = of_nat (Suc i0)" by simp
  have "loop_i px inp (of_nat W) (of_nat jn) (of_nat (Suc i0))
          (out[i0 + W * jn + W + 1 := f (i0 + W * jn)])
        = Some (row_out f W jn (Suc i0) (out[i0 + W * jn + W + 1 := f (i0 + W * jn)]))"
    using Suc.hyps(2) lt Suc.prems(1) by (intro Suc.hyps(1)) simp_all
  then show ?case
    using loop_i_cond [OF W Suc.prems(2)] lt
    by (subst loop_i.simps) (simp only: step next_i row_out_step [OF lt] if_True option.case)
qed

lemma loop_j_cond:
  assumes "1 \<le> H" "H < 2 ^ 31" "j0 \<le> H - 1"
  shows "((of_nat j0 :: MU_32S) <s of_nat H - 1) = (j0 < H - 1)"
  using assms by (rule loop_i_cond)

lemma loop_j_run:
  assumes W: "1 \<le> W" "W < 2 ^ 31" and H: "1 \<le> H" "H < 2 ^ 31"
    and room: "W * H \<le> length out" "W * H \<le> 2 ^ 31"
    and px: "\<And>i j. i < W - 1 \<Longrightarrow> j < H - 1 \<Longrightarrow>
               px inp (of_nat W) (of_nat (i + W * j)) = Some (f (i + W * j))"
    and j0: "j0 \<le> H - 1"
  shows "loop_j px inp (of_nat W) (of_nat H) (of_nat j0) out = Some (img_out f W H j0 out)"
  using room(1) j0
proof (induction n \<equiv> "H - 1 - j0" arbitrary: j0 out)
  case 0
  then have "\<not> j0 < H - 1" by simp
  then show ?case
    using loop_j_cond [OF H "0.prems"(2)]
    by (subst loop_j.simps) (simp add: img_out_done)
next
  case (Suc n)
  then have lt: "j0 < H - 1" by simp
  then have "j0 + 2 \<le> H" by simp
  then have "W * (j0 + 2) \<le> W * H" by (rule mult_le_mono2)
  then have fit: "W * j0 + 2 * W \<le> W * H" by (simp add: algebra_simps)
  have "loop_i px inp (of_nat W) (of_nat j0) (of_nat 0) out = Some (row_out f W j0 0 out)"
    using fit Suc.prems(1) room(2) lt by (intro loop_i_run W px) simp_all
  then have row: "loop_i px inp (of_nat W) (of_nat j0) 0 out = Some (row_out f W j0 0 out)"
    by simp
  have next_j: "(of_nat j0 :: MU_32S) + 1 = of_nat (Suc j0)" by simp
  have "loop_j px inp (of_nat W) (of_nat H) (of_nat (Suc j0)) (row_out f W j0 0 out)
        = Some (img_out f W H (Suc j0) (row_out f W j0 0 out))"
    using Suc.hyps(2) lt Suc.prems(1) by (intro Suc.hyps(1)) simp_all
  then show ?case
    using loop_j_cond [OF H Suc.prems(2)] lt row
    by (subst loop_j.simps) (simp only: next_j img_out_step [OF lt] if_True option.case)
qed

section \<open>The destination, pixel by pixel\<close>

lemma coord_inj:
  fixes x y x' y' W :: nat
  assumes "x < W" "x' < W"
  shows "(x + W * y = x' + W * y') = (x = x' \<and> y = y')"
proof
  assume eq: "x + W * y = x' + W * y'"
  have "(x + W * y) mod W = x" "(x' + W * y') mod W = x'" using assms by simp_all
  with eq have x: "x = x'" by simp
  have "(x + W * y) div W = y" "(x' + W * y') div W = y'" using assms by simp_all
  with eq have "y = y'" by simp
  with x show "x = x' \<and> y = y'" by simp
qed simp

lemma row_out_nth:
  assumes "x < W" and "W * jn + 2 * W \<le> length out"
  shows "row_out f W jn i0 out ! (x + W * y)
         = (if y = Suc jn \<and> i0 < x then f (x - 1 + W * jn) else out ! (x + W * y))"
  using assms(2)
proof (induction n \<equiv> "W - 1 - i0" arbitrary: i0 out)
  case 0
  then have "W - 1 \<le> i0" by simp
  moreover from this assms(1) have "\<not> i0 < x" by simp
  ultimately show ?case by (simp add: row_out_done)
next
  case (Suc n)
  then have lt: "i0 < W - 1" by simp
  let ?out1 = "out[i0 + W * jn + W + 1 := f (i0 + W * jn)]"
  have pos: "i0 + W * jn + W + 1 = Suc i0 + W * Suc jn" by simp
  have hit: "(Suc i0 + W * Suc jn = x + W * y) = (Suc i0 = x \<and> Suc jn = y)"
    using lt assms(1) by (intro coord_inj) simp_all
  have "i0 + W * jn + W + 1 < length out" using lt Suc.prems by simp
  then have upd: "?out1 ! (x + W * y)
      = (if Suc i0 = x \<and> Suc jn = y then f (i0 + W * jn) else out ! (x + W * y))"
    unfolding pos hit [symmetric] by (simp add: nth_list_update)
  have "row_out f W jn (Suc i0) ?out1 ! (x + W * y)
        = (if y = Suc jn \<and> Suc i0 < x then f (x - 1 + W * jn) else ?out1 ! (x + W * y))"
    using Suc.hyps(2) lt Suc.prems by (intro Suc.hyps(1)) simp_all
  then show ?case
    unfolding row_out_step [OF lt] upd by auto
qed

lemma img_out_nth:
  assumes "x < W" and "W * H \<le> length out"
  shows "img_out f W H j0 out ! (x + W * y)
         = (if j0 < y \<and> y < H \<and> 0 < x then f (x - 1 + W * (y - 1)) else out ! (x + W * y))"
  using assms(2)
proof (induction n \<equiv> "H - 1 - j0" arbitrary: j0 out)
  case 0
  then have "H - 1 \<le> j0" by simp
  moreover from this have "\<not> (j0 < y \<and> y < H)" by arith
  ultimately show ?case by (auto simp: img_out_done)
next
  case (Suc n)
  then have lt: "j0 < H - 1" by simp
  then have "j0 + 2 \<le> H" by simp
  then have "W * (j0 + 2) \<le> W * H" by (rule mult_le_mono2)
  then have fit: "W * j0 + 2 * W \<le> length out" using Suc.prems by (simp add: algebra_simps)
  have row: "row_out f W j0 0 out ! (x + W * y)
        = (if y = Suc j0 \<and> 0 < x then f (x - 1 + W * j0) else out ! (x + W * y))"
    using assms(1) fit by (rule row_out_nth)
  have "img_out f W H (Suc j0) (row_out f W j0 0 out) ! (x + W * y)
        = (if Suc j0 < y \<and> y < H \<and> 0 < x then f (x - 1 + W * (y - 1))
           else row_out f W j0 0 out ! (x + W * y))"
    using Suc.hyps(2) lt Suc.prems by (intro Suc.hyps(1)) simp_all
  then show ?case
    unfolding img_out_step [OF lt] row using lt by auto
qed

lemma window_fits:
  fixes i j W H :: nat
  assumes "i < W - 1" "j < H - 1"
  shows "i + W * j + 2 * W + 2 \<le> W * H + W"
proof -
  have "j + 2 \<le> H" using assms(2) by simp
  then have "W * (j + 2) \<le> W * H" by (rule mult_le_mono2)
  then show ?thesis using assms(1) by (simp add: algebra_simps)
qed

lemma run_kernel_run:
  assumes W: "1 \<le> unat (width src)" and H: "1 \<le> unat (height src)"
    and small: "unat (width src) * unat (height src) + unat (width src) < 2 ^ 31"
    and room: "unat (width src) * unat (height src) \<le> length (imagedata dst)"
    and px: "\<And>k. k + 2 * unat (width src) + 2 \<le> unat (width src) * unat (height src) + unat (width src)
               \<Longrightarrow> px (imagedata src) (of_nat (unat (width src))) (of_nat k) = Some (f k)"
  shows "run_kernel px src dst
         = Some (MU_ERR_SUCCESS,
                 dst\<lparr>imagedata := img_out f (unat (width src)) (unat (height src)) 0 (imagedata dst)\<rparr>)"
proof -
  let ?W = "unat (width src)" and ?H = "unat (height src)"
  have "?W * 1 \<le> ?W * ?H" using H by (intro mult_le_mono2)
  then have Wlt: "?W < 2 ^ 31" and WH: "?W * ?H \<le> 2 ^ 31" using small by simp_all
  have "?H \<le> ?W * ?H" using W by simp
  then have Hlt: "?H < 2 ^ 31" using small by linarith
  have "loop_j px (imagedata src) (of_nat ?W) (of_nat ?H) (of_nat 0) (imagedata dst)
        = Some (img_out f ?W ?H 0 (imagedata dst))"
    using W Wlt H Hlt room WH
  proof (rule loop_j_run)
    fix i j assume "i < ?W - 1" "j < ?H - 1"
    then have "i + ?W * j + 2 * ?W + 2 \<le> ?W * ?H + ?W" by (rule window_fits)
    then show "px (imagedata src) (of_nat ?W) (of_nat (i + ?W * j)) = Some (f (i + ?W * j))"
      by (intro px) simp
  qed simp
  then show ?thesis by (simp add: run_kernel_def)
qed

lemma kernel_defined:
  assumes W: "1 \<le> unat (width src)" and H: "1 \<le> unat (height src)"
    and small: "unat (width src) * unat (height src) + unat (width src) < 2 ^ 31"
    and inp: "unat (width src) * unat (height src) + unat (width src) < length (imagedata src)"
    and room: "unat (width src) * unat (height src) \<le> length (imagedata dst)"
    and px: "\<And>k. k + 2 * unat (width src) + 2 < length (imagedata src) \<Longrightarrow>
                 k + 2 * unat (width src) + 2 < 2 ^ 31 \<Longrightarrow>
                 px (imagedata src) (of_nat (unat (width src))) (of_nat k) = Some (word_of_int (r k))"
  shows "run_kernel px src dst
         = Some (MU_ERR_SUCCESS,
                 dst\<lparr>imagedata := img_out (\<lambda>k. word_of_int (r k)) (unat (width src))
                                     (unat (height src)) 0 (imagedata dst)\<rparr>)"
  using W H small room
proof (rule run_kernel_run)
  fix k
  assume "k + 2 * unat (width src) + 2 \<le> unat (width src) * unat (height src) + unat (width src)"
  then show "px (imagedata src) (of_nat (unat (width src))) (of_nat k) = Some (word_of_int (r k))"
    using inp small by (intro px) linarith+
qed

lemma valid_gate:
  assumes "depth src = d8u" "depth dst = d8u" "channels src = 1" "channels dst = 1"
  shows "muLaplace d8u src dst 1 = run_kernel laplace1_px src dst"
    and "muLaplace d8u src dst 2 = run_kernel laplace2_px src dst"
    and "muSobel d8u src dst = run_kernel sobel_px src dst"
    and "muPrewitt d8u src dst = run_kernel prewitt_px src dst"
  using assms by (simp_all add: muLaplace_def muSobel_def muPrewitt_def)

lemma inset_nth:
  assumes "i < W - 1" "j < H - 1" "W * H \<le> length out"
  shows "img_out f W H 0 out ! (Suc i + W * Suc j) = f (i + W * j)"
proof -
  have a: "Suc i < W" and b: "Suc j < H" using assms(1,2) by arith+
  show ?thesis by (subst img_out_nth [OF a assms(3)]) (use b in simp)
qed

lemma response_range:
  "0 \<le> laplace1_response inp W k" "laplace1_response inp W k \<le> 255"
  "0 \<le> laplace2_response inp W k" "laplace2_response inp W k \<le> 255"
  "0 \<le> sobel_response inp W k" "sobel_response inp W k \<le> 255"
  "0 \<le> prewitt_response inp W k" "prewitt_response inp W k \<le> 255"
  by (simp_all add: laplace1_response_def laplace2_response_def sobel_response_def
        prewitt_response_def Let_def)

lemma uint_response: "0 \<le> r \<Longrightarrow> r \<le> 255 \<Longrightarrow> uint (word_of_int r :: MU_8U) = r"
  by (simp add: uint_word_of_int)

lemma operators_run:
  assumes "depth src = d8u" "depth dst = d8u" "channels src = 1" "channels dst = 1"
    and "W = unat (width src)" "H = unat (height src)" "1 \<le> W" "1 \<le> H"
    and "W * H + W < 2 ^ 31"
    and "W * H + W < length (imagedata src)"
    and "W * H \<le> length (imagedata dst)"
  shows "muLaplace d8u src dst 1 = Some (MU_ERR_SUCCESS,
           dst\<lparr>imagedata := img_out (\<lambda>k. word_of_int (laplace1_response (imagedata src) W k))
                                W H 0 (imagedata dst)\<rparr>)"
    and "muLaplace d8u src dst 2 = Some (MU_ERR_SUCCESS,
           dst\<lparr>imagedata := img_out (\<lambda>k. word_of_int (laplace2_response (imagedata src) W k))
                                W H 0 (imagedata dst)\<rparr>)"
    and "muSobel d8u src dst = Some (MU_ERR_SUCCESS,
           dst\<lparr>imagedata := img_out (\<lambda>k. word_of_int (sobel_response (imagedata src) W k))
                                W H 0 (imagedata dst)\<rparr>)"
    and "muPrewitt d8u src dst = Some (MU_ERR_SUCCESS,
           dst\<lparr>imagedata := img_out (\<lambda>k. word_of_int (prewitt_response (imagedata src) W k))
                                W H 0 (imagedata dst)\<rparr>)"
proof -
  show "muLaplace d8u src dst 1 = Some (MU_ERR_SUCCESS,
           dst\<lparr>imagedata := img_out (\<lambda>k. word_of_int (laplace1_response (imagedata src) W k))
                                W H 0 (imagedata dst)\<rparr>)"
    unfolding valid_gate(1) [OF assms(1-4)] assms(5,6)
    using assms by (intro kernel_defined laplace1_px_run) simp_all
  show "muLaplace d8u src dst 2 = Some (MU_ERR_SUCCESS,
           dst\<lparr>imagedata := img_out (\<lambda>k. word_of_int (laplace2_response (imagedata src) W k))
                                W H 0 (imagedata dst)\<rparr>)"
    unfolding valid_gate(2) [OF assms(1-4)] assms(5,6)
    using assms by (intro kernel_defined laplace2_px_run) simp_all
  show "muSobel d8u src dst = Some (MU_ERR_SUCCESS,
           dst\<lparr>imagedata := img_out (\<lambda>k. word_of_int (sobel_response (imagedata src) W k))
                                W H 0 (imagedata dst)\<rparr>)"
    unfolding valid_gate(3) [OF assms(1-4)] assms(5,6)
    using assms by (intro kernel_defined sobel_px_run) simp_all
  show "muPrewitt d8u src dst = Some (MU_ERR_SUCCESS,
           dst\<lparr>imagedata := img_out (\<lambda>k. word_of_int (prewitt_response (imagedata src) W k))
                                W H 0 (imagedata dst)\<rparr>)"
    unfolding valid_gate(4) [OF assms(1-4)] assms(5,6)
    using assms by (intro kernel_defined prewitt_px_run) simp_all
qed

lemma inset_uint:
  assumes "i < W - 1" "j < H - 1" "W * H \<le> length out" "0 \<le> r (i + W * j)" "r (i + W * j) \<le> 255"
  shows "uint (img_out (\<lambda>k. word_of_int (r k)) W H 0 out ! ((i + 1) + W * (j + 1))) = r (i + W * j)"
proof -
  have "img_out (\<lambda>k. word_of_int (r k)) W H 0 out ! (Suc i + W * Suc j) = word_of_int (r (i + W * j))"
    using assms(1-3) by (rule inset_nth)
  then show ?thesis using uint_response [OF assms(4,5)] by simp
qed

section \<open>Uniform images and the bright pixel\<close>

lemma inside_image:
  fixes a b W H :: nat
  assumes "a < W" "b < H"
  shows "a + W * b < W * H"
proof -
  have "Suc b \<le> H" using assms(2) by simp
  then have "W * Suc b \<le> W * H" by (rule mult_le_mono2)
  then show ?thesis using assms(1) by simp
qed

lemma uniform_window:
  assumes c: "\<forall>k < W * H. inp ! k = c" and i: "i + 2 < W" and j: "j + 2 < H"
  shows "px_at inp (i + W * j) = uint c" "px_at inp (i + W * j + 1) = uint c"
    "px_at inp (i + W * j + 2) = uint c" "px_at inp (i + W * j + W) = uint c"
    "px_at inp (i + W * j + W + 1) = uint c" "px_at inp (i + W * j + W + 2) = uint c"
    "px_at inp (i + W * j + 2 * W) = uint c" "px_at inp (i + W * j + 2 * W + 1) = uint c"
    "px_at inp (i + W * j + 2 * W + 2) = uint c"
proof -
  have at: "px_at inp ((i + d) + W * (j + e)) = uint c" if "d \<le> 2" "e \<le> 2" for d e
  proof -
    have "(i + d) + W * (j + e) < W * H" using that i j by (intro inside_image) simp_all
    then show ?thesis using c by (simp add: px_at_def)
  qed
  have e: "i + W * j = (i + 0) + W * (j + 0)" "i + W * j + 1 = (i + 1) + W * (j + 0)"
    "i + W * j + 2 = (i + 2) + W * (j + 0)" "i + W * j + W = (i + 0) + W * (j + 1)"
    "i + W * j + W + 1 = (i + 1) + W * (j + 1)" "i + W * j + W + 2 = (i + 2) + W * (j + 1)"
    "i + W * j + 2 * W = (i + 0) + W * (j + 2)" "i + W * j + 2 * W + 1 = (i + 1) + W * (j + 2)"
    "i + W * j + 2 * W + 2 = (i + 2) + W * (j + 2)"
    by (simp_all add: algebra_simps)
  show "px_at inp (i + W * j) = uint c" by (subst e(1)) (rule at; simp)
  show "px_at inp (i + W * j + 1) = uint c" by (subst e(2)) (rule at; simp)
  show "px_at inp (i + W * j + 2) = uint c" by (subst e(3)) (rule at; simp)
  show "px_at inp (i + W * j + W) = uint c" by (subst e(4)) (rule at; simp)
  show "px_at inp (i + W * j + W + 1) = uint c" by (subst e(5)) (rule at; simp)
  show "px_at inp (i + W * j + W + 2) = uint c" by (subst e(6)) (rule at; simp)
  show "px_at inp (i + W * j + 2 * W) = uint c" by (subst e(7)) (rule at; simp)
  show "px_at inp (i + W * j + 2 * W + 1) = uint c" by (subst e(8)) (rule at; simp)
  show "px_at inp (i + W * j + 2 * W + 2) = uint c" by (subst e(9)) (rule at; simp)
qed

lemma uniform_response:
  assumes "\<forall>k < W * H. inp ! k = c" and "i + 2 < W" and "j + 2 < H"
  shows "laplace1_response inp W (i + W * j) = 0" "laplace2_response inp W (i + W * j) = 0"
    "sobel_response inp W (i + W * j) = 0" "prewitt_response inp W (i + W * j) = 0"
  unfolding laplace1_response_def laplace2_response_def sobel_response_def prewitt_response_def
    uniform_window [OF assms]
  by (simp_all add: Let_def)

lemma spot_response:
  "sobel_response (spot_pixels @ pad) 4 0 = 0"
  "sobel_response (spot_pixels @ pad) 4 (Suc 0) = 255"
  "sobel_response (spot_pixels @ pad) 4 4 = 255"
  "sobel_response (spot_pixels @ pad) 4 5 = 255"
  by (simp_all add: sobel_response_def px_at_def spot_pixels_def Let_def)

section \<open>Reads behind the last row\<close>

lemma rd_beyond: "length inp \<le> k \<Longrightarrow> k < 2 ^ 31 \<Longrightarrow> rd inp (of_nat k) = None"
  by (simp add: rd_def sint_of_nat32)

lemma last_row_px_fault:
  assumes "length inp \<le> k + 2 * W" "k + 2 * W + 2 < 2 ^ 31"
  shows "laplace1_px inp (of_nat W) (of_nat k) = None"
    and "laplace2_px inp (of_nat W) (of_nat k) = None"
    and "sobel_px inp (of_nat W) (of_nat k) = None"
    and "prewitt_px inp (of_nat W) (of_nat k) = None"
proof -
  have f0: "rd inp (of_nat (k + 2 * W)) = None" using assms by (intro rd_beyond) simp_all
  have f1: "rd inp (of_nat (k + 2 * W + 1)) = None" using assms by (intro rd_beyond) simp_all
  show "laplace1_px inp (of_nat W) (of_nat k) = None"
    unfolding laplace1_px_def index_of_nat f1 by (simp split: Option.bind_splits)
  show "laplace2_px inp (of_nat W) (of_nat k) = None"
    unfolding laplace2_px_def index_of_nat f0 by (simp split: Option.bind_splits)
  show "sobel_px inp (of_nat W) (of_nat k) = None"
    unfolding sobel_px_def index_of_nat f0 by (simp split: Option.bind_splits)
  show "prewitt_px inp (of_nat W) (of_nat k) = None"
    unfolding prewitt_px_def index_of_nat f0 by (simp split: Option.bind_splits)
qed

lemma loop_j_fault:
  assumes W: "2 \<le> W" "W < 2 ^ 31" and H: "2 \<le> H" "H < 2 ^ 31"
    and fault: "px inp (of_nat W) (of_nat (W * (H - 2))) = None"
    and j0: "j0 \<le> H - 2"
  shows "loop_j px inp (of_nat W) (of_nat H) (of_nat j0) out = None"
  using j0
proof (induction n \<equiv> "H - 2 - j0" arbitrary: j0 out)
  case 0
  then have j0: "j0 = H - 2" by simp
  have c: "((of_nat j0 :: MU_32S) <s of_nat H - 1) = (j0 < H - 1)"
    using H j0 by (intro loop_j_cond) simp_all
  have ci: "((of_nat 0 :: MU_32S) <s of_nat W - 1) = (0 < W - 1)"
    using W by (intro loop_i_cond) simp_all
  have "window_step px inp (of_nat W) (of_nat j0) 0 out = None"
    using fault by (simp add: window_step_def j0)
  then have "loop_i px inp (of_nat W) (of_nat j0) 0 out = None"
    using ci W by (subst loop_i.simps) simp
  then show ?case
    using c H j0 by (subst loop_j.simps) simp
next
  case (Suc n)
  then have lt: "j0 < H - 2" by simp
  then have lt1: "j0 < H - 1" by arith
  have c: "((of_nat j0 :: MU_32S) <s of_nat H - 1) = (j0 < H - 1)"
    using H lt by (intro loop_j_cond) simp_all
  have next_j: "(of_nat j0 :: MU_32S) + 1 = of_nat (Suc j0)" by simp
  have "loop_j px inp (of_nat W) (of_nat H) (of_nat (Suc j0)) out' = None" for out'
    using Suc.hyps(2) lt by (intro Suc.hyps(1)) simp_all
  then show ?case
    using c lt1 by (subst loop_j.simps) (simp add: next_j split: option.split)
qed

lemma run_kernel_fault:
  assumes "2 \<le> unat (width src)" "2 \<le> unat (height src)"
    and "unat (width src) * unat (height src) + unat (width src) < 2 ^ 31"
    and "px (imagedata src) (of_nat (unat (width src)))
           (of_nat (unat (width src) * (unat (height src) - 2))) = None"
  shows "run_kernel px src dst = None"
proof -
  let ?W = "unat (width src)" and ?H = "unat (height src)"
  have "?W * 1 \<le> ?W * ?H" using assms(2) by (intro mult_le_mono2) simp
  then have Wlt: "?W < 2 ^ 31" using assms(3) by simp
  have "?H \<le> ?W * ?H" using assms(1) by simp
  then have Hlt: "?H < 2 ^ 31" using assms(3) by linarith
  have "loop_j px (imagedata src) (of_nat ?W) (of_nat ?H) (of_nat 0) (imagedata dst) = None"
    using assms(1) Wlt assms(2) Hlt assms(4) by (rule loop_j_fault) simp
  then show ?thesis by (simp add: run_kernel_def)
qed

section \<open>The first row and the first column\<close>

lemma first_row_column_kept:
  assumes "depth src = d8u" "depth dst = d8u" "channels src = 1" "channels dst = 1"
    and "W = unat (width src)" "H = unat (height src)" "1 \<le> W" "1 \<le> H"
    and "W * H + W < 2 ^ 31"
    and "W * H + W < length (imagedata src)"
    and "W * H \<le> length (imagedata dst)"
    and "x < W" "x = 0 \<or> y = 0"
  shows "\<exists>dst'. muLaplace d8u src dst 1 = Some (MU_ERR_SUCCESS, dst') \<and>
                imagedata dst' ! (x + W * y) = imagedata dst ! (x + W * y)"
    and "\<exists>dst'. muLaplace d8u src dst 2 = Some (MU_ERR_SUCCESS, dst') \<and>
                imagedata dst' ! (x + W * y) = imagedata dst ! (x + W * y)"
    and "\<exists>dst'. muSobel d8u src dst = Some (MU_ERR_SUCCESS, dst') \<and>
                imagedata dst' ! (x + W * y) = imagedata dst ! (x + W * y)"
    and "\<exists>dst'. muPrewitt d8u src dst = Some (MU_ERR_SUCCESS, dst') \<and>
                imagedata dst' ! (x + W * y) = imagedata dst ! (x + W * y)"
  unfolding operators_run [OF assms(1-11)]
  using assms(13) by (auto simp: img_out_nth [OF assms(12,11)])

section \<open>Images one pixel wide or high\<close>

lemma loop_i_width_1: "loop_i px inp 1 j 0 out = Some out"
  by (subst loop_i.simps) (simp add: word_sless_alt)

lemma loop_j_width_1: "width' = 1 \<Longrightarrow> loop_j px inp width' height' j out = Some out"
proof (induction px inp width' height' j out rule: loop_j.induct)
  case (1 px inp width' height' j out)
  show ?case
  proof (cases "j <s height' - 1")
    case True
    have row: "loop_i px inp width' j 0 out = Some out" using "1.prems" by (simp add: loop_i_width_1)
    show ?thesis
      using True "1.IH" [OF True row "1.prems"] row by (subst loop_j.simps) simp
  next
    case False
    then show ?thesis by (subst loop_j.simps) simp
  qed
qed

lemma loop_j_height_1: "loop_j px inp width' 1 0 out = Some out"
  by (subst loop_j.simps) (simp add: word_sless_alt)

lemma run_kernel_degenerate:
  assumes "width src = 1 \<or> height src = 1"
  shows "run_kernel px src dst = Some (MU_ERR_SUCCESS, dst)"
  using assms by (auto simp: run_kernel_def loop_j_width_1 loop_j_height_1)

section \<open>Runs that stay inside the source buffer\<close>

text \<open>
  Take a source and a destination of 8-bit depth and one channel, of width \<open>W\<close> and
  height \<open>H\<close>, with more than \<open>W * H + W\<close> bytes in the source buffer (\<open>W * H + W\<close> is the
  largest offset the loop reads), at least \<open>W * H\<close> in the destination, and no index
  leaving the range of \<open>MU_32S\<close>. Then muSobel succeeds, and for every window origin
  \<open>(i, j)\<close> of the loop, \<open>i < W - 1\<close> and \<open>j < H - 1\<close>, the byte of the destination one row
  and one column inset from the origin is \<open>min 255 (|Gx| + |Gy|)\<close>, where \<open>Gx\<close> is top row
  minus bottom row and \<open>Gy\<close> is left column minus right column of the window, the middle
  entries counted twice. \<open>p dx dy\<close> is the source byte at offset \<open>index + dx + W * dy\<close>. For
  \<open>i = W - 2\<close> the offsets with \<open>dx = 2\<close> are the first pixels of the following rows, and
  for \<open>j = H - 2\<close> the offsets with \<open>dy = 2\<close> lie behind the image: only for \<open>i + 2 < W\<close> and
  \<open>j + 2 < H\<close> is \<open>p\<close> the 3 by 3 neighbourhood of the stored pixel.
\<close>

lemma muSobel_response:
  assumes "depth src = d8u" "depth dst = d8u" "channels src = 1" "channels dst = 1"
    and "W = unat (width src)" "H = unat (height src)"
    and "W * H + W < 2 ^ 31"
    and "W * H + W < length (imagedata src)"
    and "W * H \<le> length (imagedata dst)"
    and "i < W - 1" "j < H - 1"
  shows "\<exists>dst'. muSobel d8u src dst = Some (MU_ERR_SUCCESS, dst') \<and>
           uint (imagedata dst' ! ((i + 1) + W * (j + 1))) =
             (let p = (\<lambda>dx dy. uint (imagedata src ! ((i + dx) + W * (j + dy))));
                  Gx = (p 0 0 + 2 * p 1 0 + p 2 0) - (p 0 2 + 2 * p 1 2 + p 2 2);
                  Gy = (p 0 0 + 2 * p 0 1 + p 0 2) - (p 2 0 + 2 * p 2 1 + p 2 2)
              in min 255 (\<bar>Gx\<bar> + \<bar>Gy\<bar>))"
proof -
  let ?r = "sobel_response (imagedata src) W"
  let ?out = "img_out (\<lambda>k. word_of_int (?r k)) W H 0 (imagedata dst)"
  have run: "muSobel d8u src dst = Some (MU_ERR_SUCCESS, dst\<lparr>imagedata := ?out\<rparr>)"
    unfolding valid_gate(3) [OF assms(1-4)] assms(5,6)
    using assms by (intro kernel_defined sobel_px_run) simp_all
  have "?out ! (Suc i + W * Suc j) = word_of_int (?r (i + W * j))"
    using assms(10,11,9) by (rule inset_nth)
  then have "uint (?out ! (Suc i + W * Suc j)) = ?r (i + W * j)"
    by (simp only: uint_response [OF response_range(5,6)])
  also have "\<dots> = (let p = (\<lambda>dx dy. uint (imagedata src ! ((i + dx) + W * (j + dy))));
                  Gx = (p 0 0 + 2 * p 1 0 + p 2 0) - (p 0 2 + 2 * p 1 2 + p 2 2);
                  Gy = (p 0 0 + 2 * p 0 1 + p 0 2) - (p 2 0 + 2 * p 2 1 + p 2 2)
              in min 255 (\<bar>Gx\<bar> + \<bar>Gy\<bar>))"
    by (simp add: sobel_response_def px_at_def Let_def algebra_simps)
  finally show ?thesis using run by simp
qed

lemma muSobel_response_instance:
  "\<exists>dst'. muSobel 1 sample_src sample_dst = Some (MU_ERR_SUCCESS, dst') \<and>
          uint (imagedata dst' ! 4) = 32"
proof -
  have src: "imagedata sample_src = [1, 2, 3, 4, 5, 6, 7, 8, 9, 0, 0, 0, 0]"
    by (simp add: sample_src_def)
  have "\<exists>dst'. muSobel 1 sample_src sample_dst = Some (MU_ERR_SUCCESS, dst') \<and>
           uint (imagedata dst' ! ((0 + 1) + 3 * (0 + 1))) =
             (let p = (\<lambda>dx dy. uint (imagedata sample_src ! ((0 + dx) + 3 * (0 + dy))));
                  Gx = (p 0 0 + 2 * p 1 0 + p 2 0) - (p 0 2 + 2 * p 1 2 + p 2 2);
                  Gy = (p 0 0 + 2 * p 0 1 + p 0 2) - (p 2 0 + 2 * p 2 1 + p 2 2)
              in min 255 (\<bar>Gx\<bar> + \<bar>Gy\<bar>))"
    by (rule muSobel_response [where H = 3]) (simp_all add: sample_src_def sample_dst_def)
  then show ?thesis unfolding src Let_def by simp
qed

text \<open>
  Under the same hypotheses muLaplace succeeds with either selector, and for every
  window origin \<open>(i, j)\<close> of the loop the byte of the destination one row and one column
  inset from the origin is, with selector 1, \<open>min 255 |N + S + E + W - 4 * C|\<close> and, with
  selector 2, \<open>min 255 |sum of the eight neighbours - 8 * C|\<close>, where \<open>C = p 1 1\<close> is the byte
  at the inset position itself and the neighbours are the bytes at the offsets
  \<open>index + dx + W * dy\<close>. A sum above 255 is stored as 255, not as its low byte.
\<close>

lemma muLaplace_response:
  assumes "depth src = d8u" "depth dst = d8u" "channels src = 1" "channels dst = 1"
    and "W = unat (width src)" "H = unat (height src)"
    and "W * H + W < 2 ^ 31"
    and "W * H + W < length (imagedata src)"
    and "W * H \<le> length (imagedata dst)"
    and "i < W - 1" "j < H - 1"
  shows "(\<exists>dst'. muLaplace d8u src dst 1 = Some (MU_ERR_SUCCESS, dst') \<and>
           uint (imagedata dst' ! ((i + 1) + W * (j + 1))) =
             (let p = (\<lambda>dx dy. uint (imagedata src ! ((i + dx) + W * (j + dy))))
              in min 255 \<bar>(p 1 0 + p 1 2 + p 2 1 + p 0 1) - 4 * p 1 1\<bar>)) \<and>
         (\<exists>dst'. muLaplace d8u src dst 2 = Some (MU_ERR_SUCCESS, dst') \<and>
           uint (imagedata dst' ! ((i + 1) + W * (j + 1))) =
             (let p = (\<lambda>dx dy. uint (imagedata src ! ((i + dx) + W * (j + dy))))
              in min 255 \<bar>(p 0 0 + p 1 0 + p 2 0 + p 0 1 + p 2 1 + p 0 2 + p 1 2 + p 2 2)
                          - 8 * p 1 1\<bar>))"
proof -
  have W: "1 \<le> W" and H: "1 \<le> H" using assms(10,11) by simp_all
  note run = operators_run [OF assms(1-6) W H assms(7-9)]
  have r1: "laplace1_response (imagedata src) W (i + W * j) =
             (let p = (\<lambda>dx dy. uint (imagedata src ! ((i + dx) + W * (j + dy))))
              in min 255 \<bar>(p 1 0 + p 1 2 + p 2 1 + p 0 1) - 4 * p 1 1\<bar>)"
    by (simp add: laplace1_response_def px_at_def Let_def algebra_simps)
  have r2: "laplace2_response (imagedata src) W (i + W * j) =
             (let p = (\<lambda>dx dy. uint (imagedata src ! ((i + dx) + W * (j + dy))))
              in min 255 \<bar>(p 0 0 + p 1 0 + p 2 0 + p 0 1 + p 2 1 + p 0 2 + p 1 2 + p 2 2)
                          - 8 * p 1 1\<bar>)"
    by (simp add: laplace2_response_def px_at_def Let_def algebra_simps)
  have "uint (img_out (\<lambda>k. word_of_int (laplace1_response (imagedata src) W k)) W H 0
                (imagedata dst) ! ((i + 1) + W * (j + 1)))
        = laplace1_response (imagedata src) W (i + W * j)"
    using assms(10,11,9) response_range(1,2) by (rule inset_uint)
  moreover have "uint (img_out (\<lambda>k. word_of_int (laplace2_response (imagedata src) W k)) W H 0
                (imagedata dst) ! ((i + 1) + W * (j + 1)))
        = laplace2_response (imagedata src) W (i + W * j)"
    using assms(10,11,9) response_range(3,4) by (rule inset_uint)
  ultimately show ?thesis
    unfolding run(1,2) r1 r2 by simp
qed

lemma muLaplace_response_instance:
  "(\<exists>dst'. muLaplace 1 sample_src sample_dst 1 = Some (MU_ERR_SUCCESS, dst') \<and>
          uint (imagedata dst' ! 7) = 11) \<and>
   (\<exists>dst'. muLaplace 1 sample_src sample_dst 2 = Some (MU_ERR_SUCCESS, dst') \<and>
          uint (imagedata dst' ! 7) = 33)"
proof -
  have src: "imagedata sample_src = [1, 2, 3, 4, 5, 6, 7, 8, 9, 0, 0, 0, 0]"
    by (simp add: sample_src_def)
  have "(\<exists>dst'. muLaplace 1 sample_src sample_dst 1 = Some (MU_ERR_SUCCESS, dst') \<and>
           uint (imagedata dst' ! ((0 + 1) + 3 * (1 + 1))) =
             (let p = (\<lambda>dx dy. uint (imagedata sample_src ! ((0 + dx) + 3 * (1 + dy))))
              in min 255 \<bar>(p 1 0 + p 1 2 + p 2 1 + p 0 1) - 4 * p 1 1\<bar>)) \<and>
         (\<exists>dst'. muLaplace 1 sample_src sample_dst 2 = Some (MU_ERR_SUCCESS, dst') \<and>
           uint (imagedata dst' ! ((0 + 1) + 3 * (1 + 1))) =
             (let p = (\<lambda>dx dy. uint (imagedata sample_src ! ((0 + dx) + 3 * (1 + dy))))
              in min 255 \<bar>(p 0 0 + p 1 0 + p 2 0 + p 0 1 + p 2 1 + p 0 2 + p 1 2 + p 2 2)
                          - 8 * p 1 1\<bar>))"
    by (rule muLaplace_response [where H = 3]) (simp_all add: sample_src_def sample_dst_def)
  then show ?thesis unfolding src Let_def by simp
qed

text \<open>
  Under the same hypotheses, when all \<open>W * H\<close> pixels of the source hold the same value
  \<open>c\<close> (the bytes behind the image may hold anything), muLaplace with selector 1 and with
  selector 2, muSobel and muPrewitt succeed, and each stores 0 at every interior pixel
  \<open>(x, y)\<close>, that is \<open>1 \<le> x\<close>, \<open>x + 1 < W\<close>, \<open>1 \<le> y\<close>, \<open>y + 1 < H\<close>.
\<close>

lemma uniform_image_zero_response:
  assumes "depth src = d8u" "depth dst = d8u" "channels src = 1" "channels dst = 1"
    and "W = unat (width src)" "H = unat (height src)"
    and "W * H + W < 2 ^ 31"
    and "W * H + W < length (imagedata src)"
    and "W * H \<le> length (imagedata dst)"
    and "\<forall>k < W * H. imagedata src ! k = c"
    and "1 \<le> x" "x + 1 < W" "1 \<le> y" "y + 1 < H"
  shows "(\<exists>dst'. muLaplace d8u src dst 1 = Some (MU_ERR_SUCCESS, dst') \<and>
                 imagedata dst' ! (x + W * y) = 0) \<and>
         (\<exists>dst'. muLaplace d8u src dst 2 = Some (MU_ERR_SUCCESS, dst') \<and>
                 imagedata dst' ! (x + W * y) = 0) \<and>
         (\<exists>dst'. muSobel d8u src dst = Some (MU_ERR_SUCCESS, dst') \<and>
                 imagedata dst' ! (x + W * y) = 0) \<and>
         (\<exists>dst'. muPrewitt d8u src dst = Some (MU_ERR_SUCCESS, dst') \<and>
                 imagedata dst' ! (x + W * y) = 0)"
proof -
  obtain i j where x: "x = Suc i" and y: "y = Suc j"
    using assms(11,13) by (metis Suc_le_D One_nat_def)
  have i: "i + 2 < W" and j: "j + 2 < H" using assms(12,14) x y by simp_all
  then have W: "1 \<le> W" and H: "1 \<le> H" and i': "i < W - 1" and j': "j < H - 1" by simp_all
  note run = operators_run [OF assms(1-6) W H assms(7-9)]
  note zero = uniform_response [OF assms(10) i j]
  have at: "img_out (\<lambda>k. word_of_int (r k)) W H 0 (imagedata dst) ! (x + W * y)
            = word_of_int (r (i + W * j))" for r
    unfolding x y using i' j' assms(9) by (rule inset_nth)
  show ?thesis
    unfolding run by (simp add: at zero)
qed

lemma uniform_image_zero_response_instance:
  "(\<exists>dst'. muLaplace 1 grey_src sample_dst 1 = Some (MU_ERR_SUCCESS, dst') \<and>
          imagedata dst' ! 4 = 0) \<and>
   (\<exists>dst'. muLaplace 1 grey_src sample_dst 2 = Some (MU_ERR_SUCCESS, dst') \<and>
          imagedata dst' ! 4 = 0) \<and>
   (\<exists>dst'. muSobel 1 grey_src sample_dst = Some (MU_ERR_SUCCESS, dst') \<and>
          imagedata dst' ! 4 = 0) \<and>
   (\<exists>dst'. muPrewitt 1 grey_src sample_dst = Some (MU_ERR_SUCCESS, dst') \<and>
          imagedata dst' ! 4 = 0)"
proof -
  have u: "[7, 7, 7, 7, 7, 7, 7, 7, 7, 1, 2, 3, 4 :: MU_8U] ! k = 7" if "k < 9" for k
  proof -
    from that have "k \<in> {0, 1, 2, 3, 4, 5, 6, 7, 8}" by auto
    then show ?thesis by auto
  qed
  have "(\<exists>dst'. muLaplace 1 grey_src sample_dst 1 = Some (MU_ERR_SUCCESS, dst') \<and>
          imagedata dst' ! (1 + 3 * 1) = 0) \<and>
   (\<exists>dst'. muLaplace 1 grey_src sample_dst 2 = Some (MU_ERR_SUCCESS, dst') \<and>
          imagedata dst' ! (1 + 3 * 1) = 0) \<and>
   (\<exists>dst'. muSobel 1 grey_src sample_dst = Some (MU_ERR_SUCCESS, dst') \<and>
          imagedata dst' ! (1 + 3 * 1) = 0) \<and>
   (\<exists>dst'. muPrewitt 1 grey_src sample_dst = Some (MU_ERR_SUCCESS, dst') \<and>
          imagedata dst' ! (1 + 3 * 1) = 0)"
    by (rule uniform_image_zero_response [where H = 3 and c = 7])
       (simp_all add: grey_src_def sample_dst_def u)
  then show ?thesis by simp
qed

section \<open>Claims\<close>

text \<open>
  C1 fails on the code. Take a source and a destination of 8-bit depth and one
  channel, of width \<open>W \<ge> 2\<close> and height \<open>H \<ge> 2\<close>, the source buffer exactly \<open>W * H\<close> bytes
  long. The loops visit the window origins of row \<open>H - 2\<close>, whose windows reach row \<open>H\<close>:
  if no earlier read has left the buffer, the read of \<open>in[index+(width<<1)]\<close> (for
  selector 1, of \<open>in[index+(width<<1)+1]\<close>) at the origin \<open>(0, H - 2)\<close> does. So each of
  the four runs accesses the source out of bounds, whatever the destination is.
\<close>

theorem exact_buffer_over_read:
  assumes "depth src = d8u" "depth dst = d8u" "channels src = 1" "channels dst = 1"
    and "W = unat (width src)" "H = unat (height src)" "2 \<le> W" "2 \<le> H"
    and "W * H + W < 2 ^ 31"
    and "length (imagedata src) = W * H"
  shows "muLaplace d8u src dst 1 = None \<and> muLaplace d8u src dst 2 = None \<and>
         muSobel d8u src dst = None \<and> muPrewitt d8u src dst = None"
proof (intro conjI)
  have "W * (H - 2) + 2 * W = W * H" using assms(8) by (simp add: algebra_simps flip: distrib_left)
  then have a: "length (imagedata src) \<le> W * (H - 2) + 2 * W"
    and b: "W * (H - 2) + 2 * W + 2 < 2 ^ 31" using assms(7,9,10) by simp_all
  note f = last_row_px_fault [OF a b]
  show "muLaplace d8u src dst 1 = None"
    unfolding valid_gate(1) [OF assms(1-4)]
    using assms(7-9) f(1) unfolding assms(5,6) by (rule run_kernel_fault)
  show "muLaplace d8u src dst 2 = None"
    unfolding valid_gate(2) [OF assms(1-4)]
    using assms(7-9) f(2) unfolding assms(5,6) by (rule run_kernel_fault)
  show "muSobel d8u src dst = None"
    unfolding valid_gate(3) [OF assms(1-4)]
    using assms(7-9) f(3) unfolding assms(5,6) by (rule run_kernel_fault)
  show "muPrewitt d8u src dst = None"
    unfolding valid_gate(4) [OF assms(1-4)]
    using assms(7-9) f(4) unfolding assms(5,6) by (rule run_kernel_fault)
qed

theorem exact_buffer_over_read_witness:
  "muLaplace 1 exact_src sample_dst 1 = None \<and> muLaplace 1 exact_src sample_dst 2 = None \<and>
   muSobel 1 exact_src sample_dst = None \<and> muPrewitt 1 exact_src sample_dst = None"
  by (rule exact_buffer_over_read [where W = 3 and H = 3])
     (simp_all add: exact_src_def sample_dst_def)

text \<open>
  C2 fails on the code. On the 3 by 3 sample (with spare bytes behind the source, so
  that the run is defined) and a destination filled with the sentinel 170, each of the
  four kernels leaves the first row and the first column alone but overwrites the
  offsets 5 (last column), 7 (last row) and 8 (last row, last column): the window
  origins run up to \<open>(W - 2, H - 2)\<close>, and each is stored one row and one column inset.
\<close>

theorem border_overwritten:
  "muLaplace 1 sample_src sample_dst 1
     = Some (MU_ERR_SUCCESS, sample_dst\<lparr>imagedata := [170, 170, 170, 170, 0, 0, 170, 11, 22]\<rparr>) \<and>
   muLaplace 1 sample_src sample_dst 2
     = Some (MU_ERR_SUCCESS, sample_dst\<lparr>imagedata := [170, 170, 170, 170, 0, 10, 170, 33, 46]\<rparr>) \<and>
   muSobel 1 sample_src sample_dst
     = Some (MU_ERR_SUCCESS, sample_dst\<lparr>imagedata := [170, 170, 170, 170, 32, 16, 170, 26, 38]\<rparr>) \<and>
   muPrewitt 1 sample_src sample_dst
     = Some (MU_ERR_SUCCESS, sample_dst\<lparr>imagedata := [170, 170, 170, 170, 24, 12, 170, 19, 24]\<rparr>)"
  by code_simp

theorem border_overwritten_witness:
  "\<exists>dst'. muSobel 1 sample_src sample_dst = Some (MU_ERR_SUCCESS, dst') \<and>
          imagedata dst' ! 5 \<noteq> imagedata sample_dst ! 5 \<and>
          imagedata dst' ! 7 \<noteq> imagedata sample_dst ! 7 \<and>
          imagedata dst' ! 8 \<noteq> imagedata sample_dst ! 8"
  using border_overwritten by (simp add: sample_dst_def)

text \<open>
  C3, as stated, fails for muCanny: its check is commented out, so a three-channel
  source is answered with the success status.
\<close>

theorem muCanny_unchecked_counterexample:
  "channels rgb_src \<noteq> 1 \<and>
   muCanny rgb_src sample_dst sample_dst = Some (MU_ERR_SUCCESS, sample_dst, sample_dst)"
  by (simp add: rgb_src_def muCanny_def)

text \<open>
  C3, amended. muLaplace, muSobel and muPrewitt return DepthMismatch when the source or
  the destination is not of 8-bit depth, whatever the channel counts are; when both
  depths are right and the source or the destination does not have exactly one channel,
  they return MU_ERR_NOT_SUPPORT (the spec's ChannelUnsupported). In both cases the
  destination is returned unchanged. muCanny checks nothing: it returns the success
  status, the destination and the angle image unchanged, whatever the depths and the
  channel counts are.
\<close>

theorem validation_gate:
  "(depth src \<noteq> d8u \<or> depth dst \<noteq> d8u \<longrightarrow>
      muLaplace d8u src dst selection = Some (DepthMismatch, dst) \<and>
      muSobel d8u src dst = Some (DepthMismatch, dst) \<and>
      muPrewitt d8u src dst = Some (DepthMismatch, dst)) \<and>
   (depth src = d8u \<and> depth dst = d8u \<and> (channels src \<noteq> 1 \<or> channels dst \<noteq> 1) \<longrightarrow>
      muLaplace d8u src dst selection = Some (MU_ERR_NOT_SUPPORT, dst) \<and>
      muSobel d8u src dst = Some (MU_ERR_NOT_SUPPORT, dst) \<and>
      muPrewitt d8u src dst = Some (MU_ERR_NOT_SUPPORT, dst)) \<and>
   muCanny src dst ang = Some (MU_ERR_SUCCESS, dst, ang)"
  by (auto simp: muLaplace_def muSobel_def muPrewitt_def muCanny_def)

theorem validation_gate_witness:
  "muSobel 1 deep_src sample_dst = Some (DepthMismatch, sample_dst) \<and>
   muLaplace 1 rgb_src sample_dst 1 = Some (MU_ERR_NOT_SUPPORT, sample_dst) \<and>
   muCanny deep_src sample_dst sample_dst = Some (MU_ERR_SUCCESS, sample_dst, sample_dst)"
  using validation_gate [of deep_src 1 sample_dst 1 sample_dst]
    validation_gate [of rgb_src 1 sample_dst 1 sample_dst]
  by (simp add: deep_src_def rgb_src_def sample_dst_def)

text \<open>
  C4, as stated, fails: it speaks of one interior pixel with a nonzero response and of a
  zero response at every other interior pixel. With five zero bytes behind the image,
  muSobel stores 255 at three interior pixels, the offsets 6, 9 and 10, that is
  (2, 1), (1, 2) and (2, 2), and 0 at the offset 5, the pixel (1, 1) itself.
\<close>

theorem sobel_bright_pixel_counterexample:
  "muSobel 1 (spot_src 1 [0, 0, 0, 0, 0]) spot_dst
     = Some (MU_ERR_SUCCESS,
             spot_dst\<lparr>imagedata := [170, 170, 170, 170,  170, 0, 255, 0,
                                      170, 255, 255, 0,  170, 0, 0, 0]\<rparr>)"
  by code_simp

text \<open>
  C4, amended. Take the 4 by 4 image that is 255 at (1, 1) and 0 elsewhere, with at
  least five more bytes behind it in the source buffer (the run reads up to offset 20),
  and a destination of 8-bit depth and one channel with room for 16 bytes. muSobel
  succeeds. Of the four interior pixels, the one at (1, 1) gets the response 0, and
  its three interior neighbours (2, 1), (1, 2) and (2, 2), at the offsets 6, 9 and 10,
  get the response 255.
\<close>

theorem sobel_bright_pixel:
  assumes "depth dst = d8u" "channels dst = 1" "16 \<le> length (imagedata dst)" "5 \<le> length pad"
  shows "\<exists>dst'. muSobel d8u (spot_src d8u pad) dst = Some (MU_ERR_SUCCESS, dst') \<and>
           imagedata dst' ! 5 = 0 \<and> imagedata dst' ! 6 = 255 \<and>
           imagedata dst' ! 9 = 255 \<and> imagedata dst' ! 10 = 255"
proof -
  let ?inp = "spot_pixels @ pad"
  let ?out = "img_out (\<lambda>k. word_of_int (sobel_response ?inp 4 k)) 4 4 0 (imagedata dst)"
  have inp: "imagedata (spot_src d8u pad) = ?inp" by (simp add: spot_src_def)
  have "muSobel d8u (spot_src d8u pad) dst = Some (MU_ERR_SUCCESS,
           dst\<lparr>imagedata := img_out (\<lambda>k. word_of_int (sobel_response
                   (imagedata (spot_src d8u pad)) 4 k)) 4 4 0 (imagedata dst)\<rparr>)"
    by (rule operators_run(3)) (use assms in \<open>simp_all add: spot_src_def spot_pixels_def\<close>)
  then have run: "muSobel d8u (spot_src d8u pad) dst = Some (MU_ERR_SUCCESS, dst\<lparr>imagedata := ?out\<rparr>)"
    unfolding inp .
  have at: "?out ! (Suc i + 4 * Suc j) = word_of_int (sobel_response ?inp 4 (i + 4 * j))"
    if "i < 4 - 1" "j < 4 - 1" for i j
    using that assms(3) by (intro inset_nth) simp_all
  have "?out ! 5 = 0" using at [of 0 0] by (simp add: spot_response)
  moreover have "?out ! 6 = 255" using at [of 1 0] by (simp add: spot_response)
  moreover have "?out ! 9 = 255" using at [of 0 1] by (simp add: spot_response)
  moreover have "?out ! 10 = 255" using at [of 1 1] by (simp add: spot_response)
  ultimately show ?thesis unfolding run by simp
qed

theorem sobel_bright_pixel_witness:
  "\<exists>dst'. muSobel 1 (spot_src 1 [1, 2, 3, 4, 5]) spot_dst = Some (MU_ERR_SUCCESS, dst') \<and>
          imagedata dst' ! 5 = 0 \<and> imagedata dst' ! 6 = 255 \<and>
          imagedata dst' ! 9 = 255 \<and> imagedata dst' ! 10 = 255"
  by (rule sobel_bright_pixel) (simp_all add: spot_dst_def)

text \<open>
  C5 fails on the code. On the 3 by 3 source with a buffer of exactly 9 bytes the loop
  of muSobel visits the origin \<open>(i, j) = (1, 0)\<close>, \<open>index = 1\<close>, whose window has no third
  column inside the image: the read of \<open>in[index+(width<<1)+2] = in[9]\<close> leaves the buffer,
  so no response is computed for this origin and the run has no defined result.
\<close>

theorem muSobel_exact_buffer_fault:
  "sobel_px (imagedata exact_src) (width exact_src) 1 = None \<and>
   muSobel 1 exact_src sample_dst = None"
  by code_simp

theorem muSobel_exact_buffer_fault_witness:
  "\<not> (\<exists>dst'. muSobel 1 exact_src sample_dst = Some (MU_ERR_SUCCESS, dst'))"
  using muSobel_exact_buffer_fault by simp

text \<open>
  C6 fails on the code. On the 3 by 3 source with a buffer of exactly 9 bytes the loop
  of muLaplace visits, with selector 1, the origin \<open>(i, j) = (0, 1)\<close>, \<open>index = 3\<close>, where
  the southern neighbour \<open>in[index+(width<<1)+1] = in[10]\<close> lies behind the buffer, and,
  with selector 2, the origin \<open>(1, 0)\<close>, \<open>index = 1\<close>, where \<open>in[index+(width<<1)+2] = in[9]\<close>
  does. No response is computed for these origins and neither run has a defined
  result.
\<close>

theorem muLaplace_exact_buffer_fault:
  "laplace1_px (imagedata exact_src) (width exact_src) 3 = None \<and>
   muLaplace 1 exact_src sample_dst 1 = None \<and>
   laplace2_px (imagedata exact_src) (width exact_src) 1 = None \<and>
   muLaplace 1 exact_src sample_dst 2 = None"
  by code_simp

theorem muLaplace_exact_buffer_fault_witness:
  "\<not> (\<exists>dst'. muLaplace 1 exact_src sample_dst 1 = Some (MU_ERR_SUCCESS, dst')) \<and>
   \<not> (\<exists>dst'. muLaplace 1 exact_src sample_dst 2 = Some (MU_ERR_SUCCESS, dst'))"
  using muLaplace_exact_buffer_fault by simp

text \<open>
  C7. Whatever the source, the destination and the angle image are, muCanny returns the
  success status and hands both the destination and the angle image back as it
  received them.
\<close>

theorem muCanny_stub: "muCanny src dst ang = Some (MU_ERR_SUCCESS, dst, ang)"
  by (simp add: muCanny_def)

text \<open>
  C8. On a source and a destination of 8-bit depth and one channel, muLaplace with a
  mask selector other than 1 and 2 returns the success status and the destination
  unchanged.
\<close>

theorem muLaplace_other_selector:
  assumes "depth src = d8u" "depth dst = d8u" "channels src = 1" "channels dst = 1"
    and "selection \<noteq> 1" "selection \<noteq> 2"
  shows "muLaplace d8u src dst selection = Some (MU_ERR_SUCCESS, dst)"
  using assms by (simp add: muLaplace_def)

theorem muLaplace_other_selector_witness:
  "muLaplace 1 sample_src sample_dst 3 = Some (MU_ERR_SUCCESS, sample_dst)"
  using muLaplace_other_selector [of sample_src 1 sample_dst 3]
  by (simp add: sample_src_def sample_dst_def)



text \<open>
  C10. On a source and a destination of 8-bit depth and one channel, when the source is
  one pixel wide or one pixel high, muLaplace (with any selector), muSobel and
  muPrewitt return the success status and the destination unchanged: no window origin
  is visited. Nothing is assumed about the buffers.
\<close>

theorem degenerate_size_no_write:
  assumes "depth src = d8u" "depth dst = d8u" "channels src = 1" "channels dst = 1"
    and "width src = 1 \<or> height src = 1"
  shows "muLaplace d8u src dst selection = Some (MU_ERR_SUCCESS, dst) \<and>
         muSobel d8u src dst = Some (MU_ERR_SUCCESS, dst) \<and>
         muPrewitt d8u src dst = Some (MU_ERR_SUCCESS, dst)"
  using assms(1-4) run_kernel_degenerate [OF assms(5)]
  by (simp add: muLaplace_def muSobel_def muPrewitt_def)

theorem degenerate_size_no_write_witness:
  "muLaplace 1 column_src sample_dst 2 = Some (MU_ERR_SUCCESS, sample_dst) \<and>
   muSobel 1 column_src sample_dst = Some (MU_ERR_SUCCESS, sample_dst) \<and>
   muPrewitt 1 column_src sample_dst = Some (MU_ERR_SUCCESS, sample_dst)"
  using degenerate_size_no_write [of column_src 1 sample_dst 2]
  by (simp add: column_src_def sample_dst_def)

end
